theory Spec2Isabelle
  imports Main
begin

section \<open>The chat server of \<^verbatim>\<open>src/server.js\<close>\<close>

text \<open>
  The server is one file: two mongoose collections (messages and users), three HTTP
  handlers and four socket.io event handlers. Each handler is embedded as a function from
  the server state to the effects it produces and the state it leaves. What the handler
  reads from its environment is an argument or a field of the state: the reading of
  \<^verbatim>\<open>Date.now()\<close> is the argument \<open>now\<close>, the id of the socket the event arrived on is
  the argument \<open>s\<close>, and the outcome of every store call (resolved, or rejected with an
  error message) is read from the field \<open>faults\<close>.

  The payloads have the types of the server's event interface: the payload of
  \<^verbatim>\<open>registerUser\<close> is its \<^verbatim>\<open>username\<close>, a string; each field of the payload of
  \<^verbatim>\<open>sendMessage\<close> is a string or absent. A store call is atomic: it resolves with its
  effect on the collection, or rejects without one. The \<^verbatim>\<open>_id\<close> of a new message is
  the next value of a counter, so that it is fresh.
\<close>

subsection \<open>Data model (lines 29-45)\<close>

type_synonym sid = string

text \<open>A document of the \<^verbatim>\<open>messages\<close> collection. \<open>msg_id\<close> is the \<^verbatim>\<open>_id\<close> that mongoose
  assigns when the document is constructed; a \<^verbatim>\<open>null\<close> field is \<open>None\<close>.\<close>

record message =
  msg_id :: nat
  sender :: string
  content :: string
  fileUrl :: "string option"
  fileType :: "string option"
  timestamp :: nat

text \<open>A document of the \<^verbatim>\<open>users\<close> collection. \<open>socketId = None\<close> is a document without
  the field (what \<^verbatim>\<open>$unset\<close> leaves, and what \<^verbatim>\<open>$exists: true\<close> does not match).\<close>

record user =
  username :: string
  socketId :: "sid option"
  joinedAt :: nat

text \<open>
  The state: both collections in their natural (insertion) order, the next fresh
  \<^verbatim>\<open>_id\<close>, and the outcomes of the store calls still to come. The head of \<open>faults\<close>
  decides the next store call: \<open>Some e\<close> makes it reject with an error whose message is
  \<open>e\<close>, leaving the collections as they are; \<open>None\<close>, or an empty list, lets it resolve.
\<close>

record state =
  users :: "user list"
  messages :: "message list"
  next_id :: nat
  faults :: "string option list"

definition init :: state where
  "init = \<lparr>users = [], messages = [], next_id = 0, faults = []\<rparr>"

subsection \<open>Effects\<close>

datatype payload =
    Usernames "string list"
  | OneMessage message
  | MessageList "message list"
  | ErrorObject string

text \<open>\<open>IoEmit\<close> is \<^verbatim>\<open>io.emit\<close> (to every connected socket), \<open>SocketEmit s\<close> is
  \<^verbatim>\<open>socket.emit\<close> on the socket \<open>s\<close>, \<open>UnhandledRejection\<close> is a rejected promise that
  leaves an \<^verbatim>\<open>async\<close> handler with nothing to catch it.\<close>

datatype effect =
    IoEmit string payload
  | SocketEmit sid string payload
  | ConsoleLog string
  | ConsoleError string
  | UnhandledRejection string

datatype body =
    JsonMessages "message list"
  | JsonUsernames "string list"
  | JsonError string
  | JsonUpload string string

datatype response = Response nat body

text \<open>What reaches which socket, given the list of connected sockets.\<close>

fun deliveries :: "sid list \<Rightarrow> effect \<Rightarrow> (sid \<times> string \<times> payload) list" where
  "deliveries conns (IoEmit ev p) = map (\<lambda>c. (c, ev, p)) conns"
| "deliveries conns (SocketEmit s ev p) = [(s, ev, p)]"
| "deliveries conns (ConsoleLog l) = []"
| "deliveries conns (ConsoleError l) = []"
| "deliveries conns (UnhandledRejection l) = []"

fun is_broadcast :: "effect \<Rightarrow> bool" where
  "is_broadcast (IoEmit ev p) = True"
| "is_broadcast e = False"

subsection \<open>Store calls\<close>

text \<open>Every store call first takes its outcome from \<open>faults\<close>.\<close>

definition take_fault :: "state \<Rightarrow> string option \<times> state" where
  "take_fault st =
     (case faults st of
        [] \<Rightarrow> (None, st)
      | f # fs \<Rightarrow> (f, st\<lparr>faults := fs\<rparr>))"

text \<open>The next \<open>n\<close> store calls resolve.\<close>

definition store_ok :: "nat \<Rightarrow> state \<Rightarrow> bool" where
  "store_ok n st = list_all (\<lambda>f. f = None) (take n (faults st))"

text \<open>\<^verbatim>\<open>Message.find()\<close>\<close>

definition Message_find :: "state \<Rightarrow> (string + message list) \<times> state" where
  "Message_find st =
     (case take_fault st of
        (Some e, st') \<Rightarrow> (Inl e, st')
      | (None, st') \<Rightarrow> (Inr (messages st'), st'))"

text \<open>\<^verbatim>\<open>User.find({ socketId: { $exists: true } }).select("username -_id")\<close>\<close>

definition User_find_online :: "state \<Rightarrow> (string + user list) \<times> state" where
  "User_find_online st =
     (case take_fault st of
        (Some e, st') \<Rightarrow> (Inl e, st')
      | (None, st') \<Rightarrow> (Inr (filter (\<lambda>u. socketId u \<noteq> None) (users st')), st'))"

text \<open>
  \<^verbatim>\<open>User.findOneAndUpdate({ username }, { socketId }, { new: true, upsert: true })\<close>:
  the first document with the username gets the socket id; without one, a document is
  inserted with the username of the filter, the socket id of the update and the schema
  default of \<open>joinedAt\<close>.
\<close>

fun upsert_socket :: "string \<Rightarrow> sid \<Rightarrow> nat \<Rightarrow> user list \<Rightarrow> user list" where
  "upsert_socket name s now [] = [\<lparr>username = name, socketId = Some s, joinedAt = now\<rparr>]"
| "upsert_socket name s now (u # us) =
     (if username u = name then u\<lparr>socketId := Some s\<rparr> # us
      else u # upsert_socket name s now us)"

definition User_upsert :: "string \<Rightarrow> sid \<Rightarrow> nat \<Rightarrow> state \<Rightarrow> (string + user option) \<times> state" where
  "User_upsert name s now st =
     (case take_fault st of
        (Some e, st') \<Rightarrow> (Inl e, st')
      | (None, st') \<Rightarrow>
          (let us = upsert_socket name s now (users st')
           in (Inr (find (\<lambda>u. username u = name) us), st'\<lparr>users := us\<rparr>)))"

text \<open>\<^verbatim>\<open>User.findOne({ socketId: socket.id })\<close>\<close>

definition User_findOne_socket :: "sid \<Rightarrow> state \<Rightarrow> (string + user option) \<times> state" where
  "User_findOne_socket s st =
     (case take_fault st of
        (Some e, st') \<Rightarrow> (Inl e, st')
      | (None, st') \<Rightarrow> (Inr (find (\<lambda>u. socketId u = Some s) (users st')), st'))"

text \<open>
  \<^verbatim>\<open>User.findOneAndUpdate({ socketId: socket.id }, { $unset: { socketId: 1 } })\<close>:
  the first document holding the socket id loses the field; the call returns the
  document as it was before (or \<^verbatim>\<open>null\<close>).
\<close>

fun unset_socket :: "sid \<Rightarrow> user list \<Rightarrow> user list" where
  "unset_socket s [] = []"
| "unset_socket s (u # us) =
     (if socketId u = Some s then u\<lparr>socketId := None\<rparr> # us
      else u # unset_socket s us)"

definition User_unset_socket :: "sid \<Rightarrow> state \<Rightarrow> (string + user option) \<times> state" where
  "User_unset_socket s st =
     (case take_fault st of
        (Some e, st') \<Rightarrow> (Inl e, st')
      | (None, st') \<Rightarrow>
          (Inr (find (\<lambda>u. socketId u = Some s) (users st')),
           st'\<lparr>users := unset_socket s (users st')\<rparr>))"

text \<open>\<^verbatim>\<open>newMessage.save()\<close>\<close>

definition Message_save :: "message \<Rightarrow> state \<Rightarrow> (string + unit) \<times> state" where
  "Message_save m st =
     (case take_fault st of
        (Some e, st') \<Rightarrow> (Inl e, st')
      | (None, st') \<Rightarrow> (Inr (), st'\<lparr>messages := messages st' @ [m]\<rparr>))"

text \<open>\<^verbatim>\<open>Message.deleteMany()\<close>\<close>

definition Message_deleteMany :: "state \<Rightarrow> (string + unit) \<times> state" where
  "Message_deleteMany st =
     (case take_fault st of
        (Some e, st') \<Rightarrow> (Inl e, st')
      | (None, st') \<Rightarrow> (Inr (), st'\<lparr>messages := []\<rparr>))"

subsection \<open>HTTP handlers (lines 48-85)\<close>

definition get_messages :: "state \<Rightarrow> response \<times> state" where
  "get_messages st =
     (case Message_find st of
        (Inr ms, st') \<Rightarrow> (Response 200 (JsonMessages ms), st')
      | (Inl e, st') \<Rightarrow> (Response 500 (JsonError e), st'))"

definition get_online_users :: "state \<Rightarrow> response \<times> state" where
  "get_online_users st =
     (case User_find_online st of
        (Inr onlineUsers, st') \<Rightarrow> (Response 200 (JsonUsernames (map username onlineUsers)), st')
      | (Inl e, st') \<Rightarrow> (Response 500 (JsonError e), st'))"












subsection \<open>Socket handlers (lines 98-161)\<close>

text \<open>The payload of \<^verbatim>\<open>sendMessage\<close>: each field is a string or absent.\<close>

record send_data =
  data_content :: "string option"
  data_fileUrl :: "string option"
  data_fileType :: "string option"

text \<open>\<^verbatim>\<open>v || ""\<close> and \<^verbatim>\<open>v || null\<close> on a string or absent \<open>v\<close>: the empty string is falsy.\<close>

definition or_empty :: "string option \<Rightarrow> string" where
  "or_empty v = (case v of None \<Rightarrow> [] | Some s \<Rightarrow> if s = [] then [] else s)"

definition or_null :: "string option \<Rightarrow> string option" where
  "or_null v = (case v of None \<Rightarrow> None | Some s \<Rightarrow> if s = [] then None else Some s)"

definition online_names :: "user list \<Rightarrow> string list" where
  "online_names onlineUsers = map username onlineUsers"

definition registerUser :: "nat \<Rightarrow> sid \<Rightarrow> string \<Rightarrow> state \<Rightarrow> effect list \<times> state" where
  "registerUser now s name st =
     (case User_upsert name s now st of
        (Inl e, st1) \<Rightarrow> ([ConsoleError e], st1)
      | (Inr u, st1) \<Rightarrow>
          (case User_find_online st1 of
             (Inl e, st2) \<Rightarrow> ([ConsoleLog (name @ '' is connected''), ConsoleError e], st2)
           | (Inr onlineUsers, st2) \<Rightarrow>
               ([ConsoleLog (name @ '' is connected''),
                 IoEmit ''userConnected'' (Usernames (online_names onlineUsers))], st2)))"

definition new_Message :: "nat \<Rightarrow> user \<Rightarrow> send_data \<Rightarrow> state \<Rightarrow> message \<times> state" where
  "new_Message now sender_user d st =
     (\<lparr>msg_id = next_id st,
       sender = username sender_user,
       content = or_empty (data_content d),
       fileUrl = or_null (data_fileUrl d),
       fileType = or_null (data_fileType d),
       timestamp = now\<rparr>,
      st\<lparr>next_id := Suc (next_id st)\<rparr>)"

definition sendMessage :: "nat \<Rightarrow> sid \<Rightarrow> send_data \<Rightarrow> state \<Rightarrow> effect list \<times> state" where
  "sendMessage now s d st =
     (case User_findOne_socket s st of
        (Inl e, st1) \<Rightarrow> ([ConsoleError e], st1)
      | (Inr None, st1) \<Rightarrow> ([SocketEmit s ''error'' (ErrorObject ''Unauthorized user'')], st1)
      | (Inr (Some sender_user), st1) \<Rightarrow>
          (case new_Message now sender_user d st1 of
             (newMessage, st2) \<Rightarrow>
               (case Message_save newMessage st2 of
                  (Inl e, st3) \<Rightarrow> ([ConsoleError e], st3)
                | (Inr saved, st3) \<Rightarrow> ([IoEmit ''receiveMessage'' (OneMessage newMessage)], st3))))"

text \<open>\<^verbatim>\<open>clearChat\<close> (lines 141-144) has no \<^verbatim>\<open>try\<close>: a rejected \<^verbatim>\<open>deleteMany\<close> leaves the
  handler as an unhandled rejection.\<close>

definition clearChat :: "sid \<Rightarrow> state \<Rightarrow> effect list \<times> state" where
  "clearChat s st =
     (case Message_deleteMany st of
        (Inl e, st1) \<Rightarrow> ([UnhandledRejection e], st1)
      | (Inr deleted, st1) \<Rightarrow> ([IoEmit ''receiveMessage'' (MessageList [])], st1))"

text \<open>\<^verbatim>\<open>user?.username || "A user"\<close>\<close>

definition departing_name :: "user option \<Rightarrow> string" where
  "departing_name u =
     (case u of
        None \<Rightarrow> ''A user''
      | Some v \<Rightarrow> if username v = [] then ''A user'' else username v)"

definition disconnect :: "sid \<Rightarrow> state \<Rightarrow> effect list \<times> state" where
  "disconnect s st =
     (case User_unset_socket s st of
        (Inl e, st1) \<Rightarrow> ([ConsoleError e], st1)
      | (Inr u, st1) \<Rightarrow>
          (case User_find_online st1 of
             (Inl e, st2) \<Rightarrow> ([ConsoleLog (departing_name u @ '' disconnected''), ConsoleError e], st2)
           | (Inr onlineUsers, st2) \<Rightarrow>
               ([ConsoleLog (departing_name u @ '' disconnected''),
                 IoEmit ''userDisconnected'' (Usernames (online_names onlineUsers))], st2)))"

subsection \<open>Sequences of events\<close>

text \<open>An event of the real-time transport, with the socket it arrives on. A run handles
  the events one after the other, each with the clock reading at its arrival.\<close>

datatype event =
    RegisterUser sid string
  | SendMessage sid send_data
  | ClearChat sid
  | Disconnect sid

fun handle :: "nat \<Rightarrow> event \<Rightarrow> state \<Rightarrow> effect list \<times> state" where
  "handle now (RegisterUser s name) st = registerUser now s name st"
| "handle now (SendMessage s d) st = sendMessage now s d st"
| "handle now (ClearChat s) st = clearChat s st"
| "handle now (Disconnect s) st = disconnect s st"

fun run :: "(nat \<times> event) list \<Rightarrow> state \<Rightarrow> state" where
  "run [] st = st"
| "run ((now, e) # es) st = run es (snd (handle now e st))"

subsection \<open>Notions the properties are stated with\<close>

text \<open>The unique index on \<^verbatim>\<open>username\<close> (line 41).\<close>

definition unique_usernames :: "state \<Rightarrow> bool" where
  "unique_usernames st = distinct (map username (users st))"

text \<open>The socket id in the user record of a username, if there is a record and it has one.\<close>

definition presence :: "user list \<Rightarrow> string \<Rightarrow> sid option" where
  "presence us name =
     (case find (\<lambda>u. username u = name) us of
        None \<Rightarrow> None
      | Some u \<Rightarrow> socketId u)"

text \<open>The usernames in the answer of \<^verbatim>\<open>GET /online-users\<close>.\<close>

definition reported_online :: "state \<Rightarrow> string list" where
  "reported_online st =
     (case fst (get_online_users st) of
        Response code (JsonUsernames names) \<Rightarrow> names
      | _ \<Rightarrow> [])"

text \<open>
  The presence property in the words of the specification: the most recent
  registration of a username in a sequence of events, with the connection that made it
  and the events after it; a username is online when it has such a registration and no
  later event is the disconnect of that connection.
\<close>

fun most_recent_registration :: "string \<Rightarrow> event list \<Rightarrow> (sid \<times> event list) option" where
  "most_recent_registration name [] = None"
| "most_recent_registration name (e # es) =
     (case most_recent_registration name es of
        Some r \<Rightarrow> Some r
      | None \<Rightarrow>
          (case e of
             RegisterUser s n \<Rightarrow> if n = name then Some (s, es) else None
           | _ \<Rightarrow> None))"

definition spec_online :: "event list \<Rightarrow> string \<Rightarrow> bool" where
  "spec_online es name =
     (case most_recent_registration name es of
        None \<Rightarrow> False
      | Some (s, later) \<Rightarrow> Disconnect s \<notin> set later)"

text \<open>The sequences of events in which no connection registers two different
  usernames.\<close>

fun same_name_if_same_connection :: "event \<Rightarrow> event \<Rightarrow> bool" where
  "same_name_if_same_connection (RegisterUser s n) (RegisterUser s' n') = (s = s' \<longrightarrow> n = n')"
| "same_name_if_same_connection e e' = True"

definition one_name_per_connection :: "event list \<Rightarrow> bool" where
  "one_name_per_connection es = list_all (\<lambda>e. list_all (same_name_if_same_connection e) es) es"

text \<open>The connection of the most recent registration of a username, unless that
  connection has disconnected since.\<close>

definition live :: "event list \<Rightarrow> string \<Rightarrow> sid option" where
  "live es name =
     (case most_recent_registration name es of
        None \<Rightarrow> None
      | Some (s, later) \<Rightarrow> if Disconnect s \<in> set later then None else Some s)"

text \<open>
  The usernames registered in a sequence of events; those a connection holds after it
  (it made their most recent registration and has not disconnected since); and the
  sequences in which no connection disconnects while it holds two different usernames.
\<close>

fun registered_names :: "event list \<Rightarrow> string list" where
  "registered_names [] = []"
| "registered_names (RegisterUser s n # es) = n # registered_names es"
| "registered_names (e # es) = registered_names es"

definition held_by :: "event list \<Rightarrow> sid \<Rightarrow> string list" where
  "held_by es s = remdups (filter (\<lambda>n. live es n = Some s) (registered_names es))"

definition one_name_at_disconnect :: "event list \<Rightarrow> bool" where
  "one_name_at_disconnect es =
     list_all
       (\<lambda>k. case es ! k of
               Disconnect s \<Rightarrow> length (held_by (take k es) s) \<le> 1
             | _ \<Rightarrow> True)
       [0..<length es]"

fun is_clearChat :: "event \<Rightarrow> bool" where
  "is_clearChat (ClearChat s) = True"
| "is_clearChat e = False"

text \<open>The events that can change the record of \<open>name\<close> while it holds the socket \<open>s\<close>:
  a registration of the name, and the disconnect of the socket.\<close>

fun releases :: "sid \<Rightarrow> string \<Rightarrow> event \<Rightarrow> bool" where
  "releases s name (RegisterUser s' n) = (n = name)"
| "releases s name (Disconnect s') = (s' = s)"
| "releases s name e = False"

text \<open>A state for the examples: alice has registered from the connection \<open>c1\<close>.\<close>

definition alice_online :: state where
  "alice_online = run [(1, RegisterUser ''c1'' ''alice'')] init"

section \<open>Properties\<close>

subsection \<open>Store calls and single handlers\<close>

lemma alice_online_eval:
  "alice_online =
     \<lparr>users = [\<lparr>username = ''alice'', socketId = Some ''c1'', joinedAt = 1\<rparr>],
      messages = [], next_id = 0, faults = []\<rparr>"
  by (simp add: alice_online_def init_def registerUser_def User_upsert_def User_find_online_def
      take_fault_def Let_def)

lemma find_None_no_holder:
  "(\<forall>u\<in>set us. socketId u \<noteq> Some s) \<Longrightarrow> find (\<lambda>u. socketId u = Some s) us = None"
  by (simp add: find_None_iff)

lemma registerUser_healthy:
  "faults st = [] \<Longrightarrow>
   registerUser now s name st =
     ([ConsoleLog (name @ '' is connected''),
       IoEmit ''userConnected''
         (Usernames (map username (filter (\<lambda>u. socketId u \<noteq> None) (upsert_socket name s now (users st)))))],
      st\<lparr>users := upsert_socket name s now (users st)\<rparr>)"
  by (simp add: registerUser_def User_upsert_def User_find_online_def take_fault_def online_names_def
      Let_def)

lemma disconnect_healthy:
  "faults st = [] \<Longrightarrow>
   disconnect s st =
     ([ConsoleLog (departing_name (find (\<lambda>u. socketId u = Some s) (users st)) @ '' disconnected''),
       IoEmit ''userDisconnected''
         (Usernames (map username (filter (\<lambda>u. socketId u \<noteq> None) (unset_socket s (users st)))))],
      st\<lparr>users := unset_socket s (users st)\<rparr>)"
  by (simp add: disconnect_def User_unset_socket_def User_find_online_def take_fault_def online_names_def)

lemma sendMessage_found:
  assumes "find (\<lambda>u. socketId u = Some s) (users st) = Some u" and "store_ok 2 st"
  shows "sendMessage now s d st =
    ([IoEmit ''receiveMessage'' (OneMessage (fst (new_Message now u d st)))],
     st\<lparr>next_id := Suc (next_id st),
        messages := messages st @ [fst (new_Message now u d st)],
        faults := drop 2 (faults st)\<rparr>)"
proof (cases "faults st")
  case Nil
  then show ?thesis using assms
    by (simp add: sendMessage_def User_findOne_socket_def Message_save_def new_Message_def take_fault_def)
next
  case (Cons f fs)
  note outer = Cons
  show ?thesis
  proof (cases fs)
    case Nil
    then show ?thesis using assms outer
      by (simp add: sendMessage_def User_findOne_socket_def Message_save_def new_Message_def
          take_fault_def store_ok_def)
  next
    case (Cons g gs)
    then show ?thesis using assms outer
      by (simp add: sendMessage_def User_findOne_socket_def Message_save_def new_Message_def
          take_fault_def store_ok_def)
  qed
qed

text \<open>
  C2. A \<^verbatim>\<open>sendMessage\<close> on a socket whose id no user record holds leaves both collections
  as they are and broadcasts nothing, whatever the store does; when the lookup resolves,
  its only effect is the \<^verbatim>\<open>error\<close> event with the message "Unauthorized user", delivered
  to that socket and to no other.
\<close>

theorem sendMessage_unauthorized:
  assumes "\<forall>u\<in>set (users st). socketId u \<noteq> Some s"
  shows "snd (sendMessage now s d st) = st\<lparr>faults := tl (faults st)\<rparr> \<and>
         messages (snd (sendMessage now s d st)) = messages st \<and>
         length (messages (snd (sendMessage now s d st))) = length (messages st) \<and>
         filter is_broadcast (fst (sendMessage now s d st)) = [] \<and>
         (store_ok 1 st \<longrightarrow>
            fst (sendMessage now s d st) = [SocketEmit s ''error'' (ErrorObject ''Unauthorized user'')] \<and>
            concat (map (deliveries conns) (fst (sendMessage now s d st))) =
              [(s, ''error'', ErrorObject ''Unauthorized user'')])"
proof -
  have none: "find (\<lambda>u. socketId u = Some s) (users st) = None"
    using assms by (rule find_None_no_holder)
  show ?thesis
  proof (cases "faults st")
    case Nil
    then show ?thesis
      using none by (simp add: sendMessage_def User_findOne_socket_def take_fault_def store_ok_def)
  next
    case (Cons f fs)
    then show ?thesis
      using none
      by (cases f) (simp_all add: sendMessage_def User_findOne_socket_def take_fault_def store_ok_def)
  qed
qed

theorem sendMessage_unauthorized_witness:
  "fst (sendMessage 5 ''c2'' \<lparr>data_content = Some ''hi'', data_fileUrl = None, data_fileType = None\<rparr>
          alice_online) =
     [SocketEmit ''c2'' ''error'' (ErrorObject ''Unauthorized user'')] \<and>
   concat (map (deliveries [''c1'', ''c2''])
     (fst (sendMessage 5 ''c2'' \<lparr>data_content = Some ''hi'', data_fileUrl = None, data_fileType = None\<rparr>
          alice_online))) =
     [(''c2'', ''error'', ErrorObject ''Unauthorized user'')] \<and>
   messages (snd (sendMessage 5 ''c2'' \<lparr>data_content = Some ''hi'', data_fileUrl = None, data_fileType = None\<rparr>
          alice_online)) = messages alice_online"
  using sendMessage_unauthorized [where s = "''c2''" and now = 5
      and d = "\<lparr>data_content = Some ''hi'', data_fileUrl = None, data_fileType = None\<rparr>"
      and st = alice_online and conns = "[''c1'', ''c2'']"]
  by (simp add: alice_online_eval store_ok_def)

text \<open>
  C3, as amended. A \<^verbatim>\<open>sendMessage\<close> on a socket whose id a user record holds, with the
  store resolving, appends one message and broadcasts that same message in
  \<^verbatim>\<open>receiveMessage\<close>: its sender is the username of the first record holding the socket
  id, its content is the payload's content or the empty string when absent, its fileUrl
  and fileType are the payload's values when these are non-empty strings and null when
  they are absent or empty, its timestamp is the server's clock reading and its id is the
  fresh one.
\<close>

theorem sendMessage_registered:
  assumes "find (\<lambda>u. socketId u = Some s) (users st) = Some u" and "store_ok 2 st"
  shows "\<exists>m. fst (sendMessage now s d st) = [IoEmit ''receiveMessage'' (OneMessage m)] \<and>
           messages (snd (sendMessage now s d st)) = messages st @ [m] \<and>
           sender m = username u \<and>
           content m = (case data_content d of None \<Rightarrow> [] | Some c \<Rightarrow> c) \<and>
           fileUrl m = (if data_fileUrl d = Some [] then None else data_fileUrl d) \<and>
           fileType m = (if data_fileType d = Some [] then None else data_fileType d) \<and>
           timestamp m = now \<and> msg_id m = next_id st"
  using sendMessage_found [OF assms, of now d]
  by (auto simp: new_Message_def or_empty_def or_null_def split: option.splits)

theorem sendMessage_registered_witness:
  "\<exists>m. fst (sendMessage 5 ''c1'' \<lparr>data_content = Some ''hi'', data_fileUrl = None, data_fileType = None\<rparr>
              alice_online) = [IoEmit ''receiveMessage'' (OneMessage m)] \<and>
        messages (snd (sendMessage 5 ''c1'' \<lparr>data_content = Some ''hi'', data_fileUrl = None, data_fileType = None\<rparr>
              alice_online)) = [m] \<and>
        sender m = ''alice'' \<and> content m = ''hi'' \<and> fileUrl m = None \<and> fileType m = None \<and>
        timestamp m = 5 \<and> msg_id m = 0"
  using sendMessage_registered [where s = "''c1''" and now = 5
      and d = "\<lparr>data_content = Some ''hi'', data_fileUrl = None, data_fileType = None\<rparr>"
      and st = alice_online and u = "\<lparr>username = ''alice'', socketId = Some ''c1'', joinedAt = 1\<rparr>"]
  by (simp add: alice_online_eval store_ok_def)

text \<open>
  C3 as stated fails for a payload whose fileUrl is present and empty: the payload's
  value is the empty string, the message that is saved and broadcast has a null fileUrl.
\<close>

theorem sendMessage_empty_fileUrl_counterexample:
  "fst (sendMessage 5 ''c1'' \<lparr>data_content = Some ''hi'', data_fileUrl = Some [], data_fileType = None\<rparr>
          alice_online) =
     [IoEmit ''receiveMessage''
        (OneMessage \<lparr>msg_id = 0, sender = ''alice'', content = ''hi'', fileUrl = None,
                     fileType = None, timestamp = 5\<rparr>)] \<and>
   data_fileUrl \<lparr>data_content = Some ''hi'', data_fileUrl = Some [], data_fileType = None\<rparr> = Some [] \<and>
   fileUrl \<lparr>msg_id = 0, sender = ''alice'', content = ''hi'', fileUrl = None,
            fileType = None, timestamp = 5\<rparr> \<noteq>
     data_fileUrl \<lparr>data_content = Some ''hi'', data_fileUrl = Some [], data_fileType = None\<rparr>"
  by (simp add: alice_online_eval sendMessage_def User_findOne_socket_def Message_save_def
      new_Message_def take_fault_def or_empty_def or_null_def)

text \<open>
  C4. When the store resolves, \<^verbatim>\<open>clearChat\<close> from any socket and on any state leaves the
  message collection empty, so that \<^verbatim>\<open>GET /messages\<close> then answers with an empty array,
  and its one effect is the broadcast of \<^verbatim>\<open>receiveMessage\<close> with an empty array, which
  every connected socket receives.
\<close>

theorem clearChat_empties:
  assumes "store_ok 2 st"
  shows "messages (snd (clearChat s st)) = [] \<and>
         fst (get_messages (snd (clearChat s st))) = Response 200 (JsonMessages []) \<and>
         fst (clearChat s st) = [IoEmit ''receiveMessage'' (MessageList [])] \<and>
         concat (map (deliveries conns) (fst (clearChat s st))) =
           map (\<lambda>c. (c, ''receiveMessage'', MessageList [])) conns"
proof (cases "faults st")
  case Nil
  then show ?thesis
    by (simp add: clearChat_def Message_deleteMany_def get_messages_def Message_find_def take_fault_def)
next
  case (Cons f fs)
  then show ?thesis using assms
    by (cases fs)
       (simp_all add: clearChat_def Message_deleteMany_def get_messages_def Message_find_def
          take_fault_def store_ok_def)
qed

theorem clearChat_empties_witness:
  "messages (snd (clearChat ''c2''
      (snd (sendMessage 5 ''c1'' \<lparr>data_content = Some ''hi'', data_fileUrl = None, data_fileType = None\<rparr>
              alice_online)))) = [] \<and>
   concat (map (deliveries [''c1'', ''c2'']) (fst (clearChat ''c2''
      (snd (sendMessage 5 ''c1'' \<lparr>data_content = Some ''hi'', data_fileUrl = None, data_fileType = None\<rparr>
              alice_online))))) =
     [(''c1'', ''receiveMessage'', MessageList []), (''c2'', ''receiveMessage'', MessageList [])] \<and>
   length (messages 
      (snd (sendMessage 5 ''c1'' \<lparr>data_content = Some ''hi'', data_fileUrl = None, data_fileType = None\<rparr>
              alice_online))) = 1"
  using clearChat_empties [where s = "''c2''" and conns = "[''c1'', ''c2'']"
      and st = "snd (sendMessage 5 ''c1'' \<lparr>data_content = Some ''hi'', data_fileUrl = None, data_fileType = None\<rparr>
              alice_online)"]
  by (simp add: alice_online_eval store_ok_def sendMessage_def User_findOne_socket_def Message_save_def
      new_Message_def take_fault_def)

text \<open>
  C5. When the first store call of a handler rejects with the message \<open>e\<close>: the two
  \<^verbatim>\<open>GET\<close> handlers answer 500 with \<open>e\<close>; \<^verbatim>\<open>registerUser\<close>, \<^verbatim>\<open>sendMessage\<close> and
  \<^verbatim>\<open>disconnect\<close> write \<open>e\<close> to the console and do nothing else; the handler of
  \<^verbatim>\<open>clearChat\<close>, which has no \<^verbatim>\<open>try\<close>, writes nothing to the console and lets the
  rejection leave the handler unhandled.
\<close>

theorem store_failure_effects:
  "get_messages (st\<lparr>faults := Some e # fs\<rparr>) = (Response 500 (JsonError e), st\<lparr>faults := fs\<rparr>) \<and>
   get_online_users (st\<lparr>faults := Some e # fs\<rparr>) = (Response 500 (JsonError e), st\<lparr>faults := fs\<rparr>) \<and>
   registerUser now s name (st\<lparr>faults := Some e # fs\<rparr>) = ([ConsoleError e], st\<lparr>faults := fs\<rparr>) \<and>
   sendMessage now s d (st\<lparr>faults := Some e # fs\<rparr>) = ([ConsoleError e], st\<lparr>faults := fs\<rparr>) \<and>
   disconnect s (st\<lparr>faults := Some e # fs\<rparr>) = ([ConsoleError e], st\<lparr>faults := fs\<rparr>) \<and>
   clearChat s (st\<lparr>faults := Some e # fs\<rparr>) = ([UnhandledRejection e], st\<lparr>faults := fs\<rparr>)"
  by (simp add: get_messages_def Message_find_def get_online_users_def User_find_online_def
      clearChat_def Message_deleteMany_def registerUser_def User_upsert_def sendMessage_def
      User_findOne_socket_def disconnect_def User_unset_socket_def take_fault_def)

text \<open>
  C9. A \<^verbatim>\<open>sendMessage\<close> with an empty payload on a socket whose id a user record holds
  is saved and broadcast like any other: content is the empty string, fileUrl and fileType
  are null.
\<close>

theorem sendMessage_empty_payload:
  assumes "find (\<lambda>u. socketId u = Some s) (users st) = Some u" and "store_ok 2 st"
  shows "fst (sendMessage now s \<lparr>data_content = None, data_fileUrl = None, data_fileType = None\<rparr> st) =
           [IoEmit ''receiveMessage''
              (OneMessage \<lparr>msg_id = next_id st, sender = username u, content = [], fileUrl = None,
                           fileType = None, timestamp = now\<rparr>)] \<and>
         messages (snd (sendMessage now s \<lparr>data_content = None, data_fileUrl = None, data_fileType = None\<rparr> st)) =
           messages st @ [\<lparr>msg_id = next_id st, sender = username u, content = [], fileUrl = None,
                           fileType = None, timestamp = now\<rparr>]"
  using sendMessage_found [OF assms, of now "\<lparr>data_content = None, data_fileUrl = None, data_fileType = None\<rparr>"]
  by (simp add: new_Message_def or_empty_def or_null_def)

theorem sendMessage_empty_payload_witness:
  "fst (sendMessage 5 ''c1'' \<lparr>data_content = None, data_fileUrl = None, data_fileType = None\<rparr> alice_online) =
     [IoEmit ''receiveMessage''
        (OneMessage \<lparr>msg_id = 0, sender = ''alice'', content = [], fileUrl = None,
                     fileType = None, timestamp = 5\<rparr>)] \<and>
   messages (snd (sendMessage 5 ''c1'' \<lparr>data_content = None, data_fileUrl = None, data_fileType = None\<rparr>
                    alice_online)) =
     [\<lparr>msg_id = 0, sender = ''alice'', content = [], fileUrl = None, fileType = None, timestamp = 5\<rparr>]"
  using sendMessage_empty_payload [where s = "''c1''" and now = 5 and st = alice_online
      and u = "\<lparr>username = ''alice'', socketId = Some ''c1'', joinedAt = 1\<rparr>"]
  by (simp add: alice_online_eval store_ok_def)

subsection \<open>The message collection\<close>

lemma registerUser_messages: "messages (snd (registerUser now s name st)) = messages st"
  by (auto simp: registerUser_def User_upsert_def User_find_online_def take_fault_def Let_def
      split: list.splits option.splits)

lemma disconnect_messages: "messages (snd (disconnect s st)) = messages st"
  by (auto simp: disconnect_def User_unset_socket_def User_find_online_def take_fault_def
      split: list.splits option.splits)

lemma sendMessage_messages:
  "messages (snd (sendMessage now s d st)) = messages st \<or>
   messages (snd (sendMessage now s d st)) =
     messages st @ [fst (new_Message now (the (find (\<lambda>u. socketId u = Some s) (users st))) d st)]"
  by (auto simp: sendMessage_def User_findOne_socket_def Message_save_def new_Message_def take_fault_def
      split: list.splits option.splits)

lemma clearChat_messages:
  "messages (snd (clearChat s st)) = [] \<or> messages (snd (clearChat s st)) = messages st"
  by (auto simp: clearChat_def Message_deleteMany_def take_fault_def split: list.splits option.splits)

lemma handle_messages_prefix:
  assumes "\<not> is_clearChat e"
  shows "\<exists>new. messages (snd (handle now e st)) = messages st @ new"
proof (cases e)
  case (RegisterUser s n)
  then show ?thesis by (simp add: registerUser_messages)
next
  case (SendMessage s d)
  then show ?thesis using sendMessage_messages [of now s d st] by auto
next
  case (ClearChat s)
  then show ?thesis using assms by simp
next
  case (Disconnect s)
  then show ?thesis by (simp add: disconnect_messages)
qed

lemma run_messages_prefix:
  "list_all (\<lambda>te. \<not> is_clearChat (snd te)) tes \<Longrightarrow> \<exists>new. messages (run tes st) = messages st @ new"
proof (induction tes arbitrary: st)
  case Nil
  then show ?case by simp
next
  case (Cons te tes)
  obtain now e where te: "te = (now, e)" by (cases te)
  from Cons.prems te have e: "\<not> is_clearChat e" and rest: "list_all (\<lambda>te. \<not> is_clearChat (snd te)) tes"
    by simp_all
  from handle_messages_prefix [OF e] obtain new1
    where n1: "messages (snd (handle now e st)) = messages st @ new1" by blast
  from Cons.IH [OF rest] obtain new2
    where n2: "messages (run tes (snd (handle now e st))) = messages (snd (handle now e st)) @ new2"
    by blast
  show ?case using te n1 n2 by simp
qed

subsection \<open>The user collection\<close>

lemma presence_upsert:
  "presence (upsert_socket n s now us) m = (if m = n then Some s else presence us m)"
  by (induction us) (auto simp: presence_def)

lemma unset_socket_names: "map username (unset_socket s us) = map username us"
  by (induction us) auto

lemma presence_of_member:
  "distinct (map username us) \<Longrightarrow> u \<in> set us \<Longrightarrow> presence us (username u) = socketId u"
proof (induction us)
  case Nil
  then show ?case by simp
next
  case (Cons v us)
  show ?case
  proof (cases "username v = username u")
    case True
    from Cons.prems(1) have "username v \<notin> username ` set us" by simp
    with True have "u \<notin> set us" by force
    with Cons.prems(2) have "u = v" by simp
    then show ?thesis by (simp add: presence_def)
  next
    case False
    with Cons.prems(2) have "u \<in> set us" by auto
    with Cons.IH Cons.prems(1) False show ?thesis by (simp add: presence_def)
  qed
qed

lemma presence_Some_member:
  "presence us m = Some s \<Longrightarrow> \<exists>u\<in>set us. username u = m \<and> socketId u = Some s"
  by (auto simp: presence_def find_Some_iff split: option.splits intro: nth_mem)

lemma find_holder_member:
  "find (\<lambda>u. socketId u = Some s) us = Some h \<Longrightarrow> h \<in> set us \<and> socketId h = Some s"
  by (auto simp: find_Some_iff)

lemma presence_unset:
  "distinct (map username us) \<Longrightarrow>
   presence (unset_socket s us) m =
     (if map_option username (find (\<lambda>u. socketId u = Some s) us) = Some m then None
      else presence us m)"
proof (induction us)
  case Nil
  then show ?case by (simp add: presence_def)
next
  case (Cons u us)
  show ?case
  proof (cases "socketId u = Some s")
    case True
    then show ?thesis by (simp add: presence_def)
  next
    case False
    note nohold = False
    show ?thesis
    proof (cases "username u = m")
      case True
      have "map_option username (find (\<lambda>u. socketId u = Some s) us) \<noteq> Some m"
      proof
        assume "map_option username (find (\<lambda>u. socketId u = Some s) us) = Some m"
        then obtain h where "find (\<lambda>u. socketId u = Some s) us = Some h" "username h = m" by auto
        with find_holder_member [of s us h] have "m \<in> username ` set us" by auto
        with True Cons.prems show False by simp
      qed
      with True nohold show ?thesis by (auto simp: presence_def)
    next
      case False
      have l: "presence (unset_socket s (u # us)) m = presence (unset_socket s us) m"
        using False nohold by (simp add: presence_def)
      have r: "presence (u # us) m = presence us m" using False by (simp add: presence_def)
      have f: "find (\<lambda>u. socketId u = Some s) (u # us) = find (\<lambda>u. socketId u = Some s) us"
        using nohold by simp
      have ih: "presence (unset_socket s us) m =
          (if map_option username (find (\<lambda>u. socketId u = Some s) us) = Some m then None
           else presence us m)"
        using Cons.IH Cons.prems by simp
      show ?thesis by (simp only: l r f ih)
    qed
  qed
qed

lemma mrr_snoc:
  "most_recent_registration m (es @ [e]) =
     (case e of
        RegisterUser s n \<Rightarrow>
          if n = m then Some (s, [])
          else map_option (\<lambda>(c, later). (c, later @ [e])) (most_recent_registration m es)
      | _ \<Rightarrow> map_option (\<lambda>(c, later). (c, later @ [e])) (most_recent_registration m es))"
  by (induction es) (auto split: option.splits event.splits)

lemma live_snoc_register:
  "live (es @ [RegisterUser s n]) m = (if m = n then Some s else live es m)"
  by (auto simp: live_def mrr_snoc split: option.splits)

lemma live_snoc_disconnect:
  "live (es @ [Disconnect s]) m = (if live es m = Some s then None else live es m)"
  by (auto simp: live_def mrr_snoc split: option.splits)

lemma live_snoc_send: "live (es @ [SendMessage s d]) m = live es m"
  by (auto simp: live_def mrr_snoc split: option.splits)

lemma live_snoc_clear: "live (es @ [ClearChat s]) m = live es m"
  by (auto simp: live_def mrr_snoc split: option.splits)

lemma mrr_registered:
  "most_recent_registration m es = Some (s, later) \<Longrightarrow> RegisterUser s m \<in> set es"
  by (induction es arbitrary: later) (auto split: option.splits event.splits if_splits)

lemma live_registered: "live es m = Some s \<Longrightarrow> RegisterUser s m \<in> set es"
  by (auto simp: live_def split: option.splits if_splits dest: mrr_registered)

lemma one_name_unique:
  "one_name_per_connection es \<Longrightarrow> RegisterUser s m \<in> set es \<Longrightarrow> RegisterUser s m' \<in> set es \<Longrightarrow> m = m'"
proof -
  assume a: "one_name_per_connection es" and m: "RegisterUser s m \<in> set es" and m': "RegisterUser s m' \<in> set es"
  from a m have "list_all (same_name_if_same_connection (RegisterUser s m)) es"
    by (simp add: one_name_per_connection_def list_all_iff)
  with m' have "same_name_if_same_connection (RegisterUser s m) (RegisterUser s m')"
    unfolding list_all_iff by blast
  then show ?thesis by simp
qed

lemma one_name_butlast: "one_name_per_connection (es @ [e]) \<Longrightarrow> one_name_per_connection es"
  by (auto simp: one_name_per_connection_def list_all_iff)

lemma run_snoc: "run (tes @ [(now, e)]) st = snd (handle now e (run tes st))"
  by (induction tes arbitrary: st) auto

lemma sendMessage_users:
  "users (snd (sendMessage now s d st)) = users st \<and> (faults st = [] \<longrightarrow> faults (snd (sendMessage now s d st)) = [])"
  by (auto simp: sendMessage_def User_findOne_socket_def Message_save_def new_Message_def take_fault_def
      split: list.splits option.splits)

lemma clearChat_users:
  "users (snd (clearChat s st)) = users st \<and> (faults st = [] \<longrightarrow> faults (snd (clearChat s st)) = [])"
  by (auto simp: clearChat_def Message_deleteMany_def take_fault_def split: list.splits option.splits)

lemma upsert_socket_names:
  "set (map username (upsert_socket name s now us)) = insert name (set (map username us))"
  by (induction us) auto

lemma upsert_socket_distinct:
  "distinct (map username us) \<Longrightarrow> distinct (map username (upsert_socket name s now us))"
proof (induction us)
  case Nil
  then show ?case by simp
next
  case (Cons u us)
  then show ?case using upsert_socket_names [of name s now us] by auto
qed

lemma get_online_users_healthy:
  "faults st = [] \<Longrightarrow>
   get_online_users st =
     (Response 200 (JsonUsernames (map username (filter (\<lambda>u. socketId u \<noteq> None) (users st)))), st)"
  by (simp add: get_online_users_def User_find_online_def take_fault_def)

lemma reported_online_healthy:
  "faults st = [] \<Longrightarrow>
   reported_online st = map username (filter (\<lambda>u. socketId u \<noteq> None) (users st))"
  by (simp add: reported_online_def get_online_users_healthy)

lemma online_iff_presence:
  assumes "distinct (map username us)"
  shows "m \<in> set (map username (filter (\<lambda>u. socketId u \<noteq> None) us)) \<longleftrightarrow> presence us m \<noteq> None"
proof
  assume "m \<in> set (map username (filter (\<lambda>u. socketId u \<noteq> None) us))"
  then obtain u where u: "u \<in> set us" "socketId u \<noteq> None" "username u = m" by auto
  from presence_of_member [OF assms u(1)] u show "presence us m \<noteq> None" by simp
next
  assume "presence us m \<noteq> None"
  then obtain s where "presence us m = Some s" by auto
  from presence_Some_member [OF this] show "m \<in> set (map username (filter (\<lambda>u. socketId u \<noteq> None) us))"
    by force
qed

lemma online_iff_record:
  "m \<in> set (map username (filter (\<lambda>u. socketId u \<noteq> None) us)) \<longleftrightarrow>
   (\<exists>u\<in>set us. username u = m \<and> socketId u \<noteq> None)"
  by auto

lemma distinct_online:
  "distinct (map username us) \<Longrightarrow> distinct (map username (filter (\<lambda>u. socketId u \<noteq> None) us))"
  by (rule distinct_map_filter)

lemma spec_online_live: "spec_online es m \<longleftrightarrow> live es m \<noteq> None"
  by (auto simp: spec_online_def live_def split: option.splits)

lemma handle_healthy_users:
  assumes "faults st = []"
  shows "faults (snd (handle now e st)) = [] \<and>
         users (snd (handle now e st)) =
           (case e of
              RegisterUser s n \<Rightarrow> upsert_socket n s now (users st)
            | Disconnect s \<Rightarrow> unset_socket s (users st)
            | _ \<Rightarrow> users st)"
proof (cases e)
  case (RegisterUser s n)
  then show ?thesis using assms by (simp add: registerUser_healthy)
next
  case (SendMessage s d)
  then show ?thesis using assms sendMessage_users [of now s d st] by simp
next
  case (ClearChat s)
  then show ?thesis using assms clearChat_users [of s st] by simp
next
  case (Disconnect s)
  then show ?thesis using assms by (simp add: disconnect_healthy)
qed

subsection \<open>Presence\<close>

lemma registered_names_mem: "RegisterUser s m \<in> set es \<Longrightarrow> m \<in> set (registered_names es)"
  by (induction es rule: registered_names.induct) auto

lemma short_distinct_unique:
  "distinct xs \<Longrightarrow> length xs \<le> 1 \<Longrightarrow> a \<in> set xs \<Longrightarrow> b \<in> set xs \<Longrightarrow> a = b"
  by (cases xs) auto

lemma held_by_unique:
  assumes short: "length (held_by es s) \<le> 1" and m: "live es m = Some s" and m': "live es m' = Some s"
  shows "m = m'"
proof -
  from m live_registered [OF m] have a: "m \<in> set (held_by es s)"
    by (simp add: held_by_def registered_names_mem)
  from m' live_registered [OF m'] have b: "m' \<in> set (held_by es s)"
    by (simp add: held_by_def registered_names_mem)
  have d: "distinct (held_by es s)" by (simp add: held_by_def)
  from d short a b show ?thesis by (rule short_distinct_unique)
qed

lemma one_name_at_disconnect_snoc:
  "one_name_at_disconnect (es @ [e]) \<longleftrightarrow>
   one_name_at_disconnect es \<and>
   (case e of Disconnect s \<Rightarrow> length (held_by es s) \<le> 1 | _ \<Rightarrow> True)"
proof -
  let ?P = "\<lambda>xs k. case xs ! k of Disconnect s \<Rightarrow> length (held_by (take k xs) s) \<le> 1 | _ \<Rightarrow> True"
  have same: "?P (es @ [e]) k = ?P es k" if "k \<in> set [0..<length es]" for k
  proof -
    from that have "k < length es" by simp
    then have "take k (es @ [e]) = take k es" "(es @ [e]) ! k = es ! k"
      by (simp_all add: nth_append)
    then show ?thesis by (simp only:)
  qed
  have "list_all (?P (es @ [e])) [0..<length es] = list_all (?P es) [0..<length es]"
    by (rule list_all_cong [OF refl same])
  moreover have "?P (es @ [e]) (length es) =
      (case e of Disconnect s \<Rightarrow> length (held_by es s) \<le> 1 | _ \<Rightarrow> True)"
  proof -
    have "take (length es) (es @ [e]) = es" "(es @ [e]) ! length es = e" by simp_all
    then show ?thesis by (simp only:)
  qed
  ultimately show ?thesis by (simp add: one_name_at_disconnect_def)
qed

lemma uniform_distinct_short:
  assumes "distinct xs" and "\<forall>a\<in>set xs. \<forall>b\<in>set xs. a = b"
  shows "length xs \<le> 1"
proof (cases xs)
  case Nil
  then show ?thesis by simp
next
  case (Cons x ys)
  have "ys = []"
  proof (cases ys)
    case Nil
    then show ?thesis .
  next
    case (Cons y zs)
    with \<open>xs = x # ys\<close> have mem: "x \<in> set xs" "y \<in> set xs" and ne: "x \<noteq> y"
      using assms(1) by simp_all
    from assms(2) mem have "x = y" by blast
    with ne show ?thesis by simp
  qed
  with Cons show ?thesis by simp
qed

lemma presence_offline:
  assumes off: "\<forall>u\<in>set us. socketId u = None"
  shows "presence us m = None"
proof (rule ccontr)
  assume "presence us m \<noteq> None"
  then obtain s where "presence us m = Some s" by (cases "presence us m") simp_all
  from presence_Some_member [OF this] obtain u where "u \<in> set us" "socketId u = Some s" by blast
  with off show False by simp
qed

lemma one_name_per_connection_disconnects:
  "one_name_per_connection es \<Longrightarrow> one_name_at_disconnect es"
proof (induction es rule: rev_induct)
  case Nil
  then show ?case by (simp add: one_name_at_disconnect_def)
next
  case (snoc e es)
  from snoc.prems have one: "one_name_per_connection es" by (rule one_name_butlast)
  have short: "length (held_by es s) \<le> 1" for s
  proof (rule uniform_distinct_short)
    show "distinct (held_by es s)" by (simp add: held_by_def)
    show "\<forall>a\<in>set (held_by es s). \<forall>b\<in>set (held_by es s). a = b"
    proof (intro ballI)
      fix a b
      assume "a \<in> set (held_by es s)" "b \<in> set (held_by es s)"
      then have "live es a = Some s" "live es b = Some s" by (simp_all add: held_by_def)
      from one_name_unique [OF one live_registered [OF this(1)] live_registered [OF this(2)]]
      show "a = b" .
    qed
  qed
  have "case e of Disconnect s \<Rightarrow> length (held_by es s) \<le> 1 | _ \<Rightarrow> True"
    using short by (cases e) simp_all
  with snoc.IH [OF one] show ?case
    by (simp only: one_name_at_disconnect_snoc)
qed

lemma run_presence:
  assumes healthy0: "faults st0 = []"
    and dist0: "distinct (map username (users st0))"
    and off0: "\<forall>u\<in>set (users st0). socketId u = None"
  shows "one_name_at_disconnect (map snd tes) \<Longrightarrow>
   faults (run tes st0) = [] \<and>
   distinct (map username (users (run tes st0))) \<and>
   (\<forall>m. presence (users (run tes st0)) m = live (map snd tes) m)"
proof (induction tes rule: rev_induct)
  case Nil
  then show ?case using healthy0 dist0 presence_offline [OF off0] by (simp add: live_def)
next
  case (snoc te tes)
  obtain now e where te: "te = (now, e)" by (cases te)
  let ?st = "run tes st0"
  let ?es = "map snd tes"
  from snoc.prems te have one: "one_name_at_disconnect (?es @ [e])" by simp
  then have prev: "one_name_at_disconnect ?es"
    and last: "case e of Disconnect s \<Rightarrow> length (held_by ?es s) \<le> 1 | _ \<Rightarrow> True"
    by (simp_all only: one_name_at_disconnect_snoc)
  from snoc.IH [OF prev] have healthy: "faults ?st = []"
    and dist: "distinct (map username (users ?st))"
    and pres: "\<And>m. presence (users ?st) m = live ?es m" by simp_all
  have run: "run (tes @ [te]) st0 = snd (handle now e ?st)" by (simp add: te run_snoc)
  have es': "map snd (tes @ [te]) = ?es @ [e]" by (simp add: te)
  note h = handle_healthy_users [OF healthy, of now e]
  from h have f': "faults (run (tes @ [te]) st0) = []" by (simp add: run)
  show ?case
  proof (cases e)
    case (RegisterUser s n)
    with h have us: "users (run (tes @ [te]) st0) = upsert_socket n s now (users ?st)"
      by (simp add: run)
    have "distinct (map username (upsert_socket n s now (users ?st)))"
      using dist by (rule upsert_socket_distinct)
    moreover have "presence (upsert_socket n s now (users ?st)) m = live (?es @ [RegisterUser s n]) m" for m
      by (simp add: presence_upsert live_snoc_register pres)
    ultimately show ?thesis using f' unfolding us es' RegisterUser by blast
  next
    case (SendMessage s d)
    with h have us: "users (run (tes @ [te]) st0) = users ?st" by (simp add: run)
    have "presence (users ?st) m = live (?es @ [SendMessage s d]) m" for m
      by (simp add: live_snoc_send pres)
    then show ?thesis using f' dist unfolding us es' SendMessage by blast
  next
    case (ClearChat s)
    with h have us: "users (run (tes @ [te]) st0) = users ?st" by (simp add: run)
    have "presence (users ?st) m = live (?es @ [ClearChat s]) m" for m
      by (simp add: live_snoc_clear pres)
    then show ?thesis using f' dist unfolding us es' ClearChat by blast
  next
    case (Disconnect s)
    with h have us: "users (run (tes @ [te]) st0) = unset_socket s (users ?st)" by (simp add: run)
    from last Disconnect have single: "length (held_by ?es s) \<le> 1" by simp
    have d': "distinct (map username (unset_socket s (users ?st)))"
      using dist by (simp add: unset_socket_names)
    have p': "presence (unset_socket s (users ?st)) m = live (?es @ [Disconnect s]) m" for m
    proof -
      let ?first = "map_option username (find (\<lambda>u. socketId u = Some s) (users ?st))"
      have "?first = Some m \<longleftrightarrow> live ?es m = Some s"
      proof
        assume "?first = Some m"
        then obtain hd where hd: "find (\<lambda>u. socketId u = Some s) (users ?st) = Some hd" "username hd = m"
          by auto
        from find_holder_member [OF hd(1)] presence_of_member [OF dist, of hd] hd(2)
        have "presence (users ?st) m = Some s" by auto
        then show "live ?es m = Some s" by (simp add: pres)
      next
        assume l: "live ?es m = Some s"
        then have "presence (users ?st) m = Some s" by (simp add: pres)
        from presence_Some_member [OF this] obtain u where u: "u \<in> set (users ?st)" "socketId u = Some s"
          by blast
        then have "find (\<lambda>u. socketId u = Some s) (users ?st) \<noteq> None" by (auto simp: find_None_iff)
        then obtain hd where hd: "find (\<lambda>u. socketId u = Some s) (users ?st) = Some hd" by auto
        from find_holder_member [OF hd] presence_of_member [OF dist, of hd]
        have "presence (users ?st) (username hd) = Some s" by auto
        then have l': "live ?es (username hd) = Some s" by (simp add: pres)
        from held_by_unique [OF single l l'] have "m = username hd" .
        with hd show "?first = Some m" by simp
      qed
      then show ?thesis
        by (simp add: presence_unset [OF dist] live_snoc_disconnect pres)
    qed
    show ?thesis using f' d' p' unfolding us es' Disconnect by blast
  qed
qed

text \<open>
  C1, as amended. Start from a store with unique usernames in which no user record has a
  socketId (the empty store is one), let every store call resolve, and take any sequence
  of events, handled one after the other, in which no connection disconnects while it
  holds two different usernames (no sequence in which every connection registers at most
  one username has such a disconnect). Then \<^verbatim>\<open>GET /online-users\<close> answers 200 with a
  duplicate-free list of exactly the usernames whose most recent registration has not
  been followed by a disconnect of the connection that made it; and a username is in the
  list exactly when a user record with that username has a socketId.
\<close>

theorem online_users_presence:
  assumes "faults st0 = []"
    and "unique_usernames st0"
    and "\<forall>u\<in>set (users st0). socketId u = None"
    and "one_name_at_disconnect (map snd tes)"
  shows "fst (get_online_users (run tes st0)) =
           Response 200 (JsonUsernames (reported_online (run tes st0))) \<and>
         distinct (reported_online (run tes st0)) \<and>
         (\<forall>name. name \<in> set (reported_online (run tes st0)) \<longleftrightarrow> spec_online (map snd tes) name) \<and>
         (\<forall>name. name \<in> set (reported_online (run tes st0)) \<longleftrightarrow>
            (\<exists>u\<in>set (users (run tes st0)). username u = name \<and> socketId u \<noteq> None))"
proof -
  let ?st = "run tes st0"
  from assms(2) have dist0: "distinct (map username (users st0))"
    by (simp add: unique_usernames_def)
  from run_presence [OF assms(1) dist0 assms(3,4)] have healthy: "faults ?st = []"
    and dist: "distinct (map username (users ?st))"
    and pres: "\<And>m. presence (users ?st) m = live (map snd tes) m" by simp_all
  have rep: "reported_online ?st = map username (filter (\<lambda>u. socketId u \<noteq> None) (users ?st))"
    using healthy by (rule reported_online_healthy)
  have a: "fst (get_online_users ?st) = Response 200 (JsonUsernames (reported_online ?st))"
    using healthy by (simp add: rep get_online_users_healthy)
  have b: "distinct (reported_online ?st)"
    unfolding rep using dist by (rule distinct_online)
  have c: "name \<in> set (reported_online ?st) \<longleftrightarrow> spec_online (map snd tes) name" for name
    unfolding rep online_iff_presence [OF dist] spec_online_live by (simp add: pres)
  have d: "name \<in> set (reported_online ?st) \<longleftrightarrow>
      (\<exists>u\<in>set (users ?st). username u = name \<and> socketId u \<noteq> None)" for name
    unfolding rep by (rule online_iff_record)
  show ?thesis using a b c d by (intro conjI allI)
qed

theorem online_users_presence_witness:
  "reported_online (run [(1, RegisterUser ''c1'' ''alice''), (2, RegisterUser ''c2'' ''alice''),
                         (3, RegisterUser ''c1'' ''bob''), (4, Disconnect ''c1'')] init) = [''alice''] \<and>
   spec_online [RegisterUser ''c1'' ''alice'', RegisterUser ''c2'' ''alice'',
                RegisterUser ''c1'' ''bob'', Disconnect ''c1''] ''alice'' \<and>
   \<not> spec_online [RegisterUser ''c1'' ''alice'', RegisterUser ''c2'' ''alice'',
                  RegisterUser ''c1'' ''bob'', Disconnect ''c1''] ''bob''"
proof -
  let ?tes = "[(1::nat, RegisterUser ''c1'' ''alice''), (2, RegisterUser ''c2'' ''alice''),
               (3, RegisterUser ''c1'' ''bob''), (4, Disconnect ''c1'')]"
  let ?es = "[RegisterUser ''c1'' ''alice'', RegisterUser ''c2'' ''alice'',
              RegisterUser ''c1'' ''bob'', Disconnect ''c1'']"
  have es: "map snd ?tes = ?es" by simp
  have h: "one_name_at_disconnect (map snd ?tes)"
    by (simp add: one_name_at_disconnect_def held_by_def live_def)
  have i: "faults init = []" "unique_usernames init" "\<forall>u\<in>set (users init). socketId u = None"
    by (simp_all add: init_def unique_usernames_def)
  have ev: "reported_online (run ?tes init) = [''alice'']"
    by (simp add: init_def registerUser_def disconnect_def
        User_upsert_def User_unset_socket_def User_find_online_def take_fault_def Let_def
        reported_online_def get_online_users_def online_names_def)
  note c = online_users_presence [OF i h, THEN conjunct2, THEN conjunct2, THEN conjunct1, THEN spec]
  have "''alice'' \<in> set (reported_online (run ?tes init))" unfolding ev by simp
  from c [of "''alice''", THEN iffD1, OF this] have a: "spec_online ?es ''alice''"
    unfolding es .
  have nb: "''bob'' \<notin> set (reported_online (run ?tes init))" unfolding ev by simp
  have b: "\<not> spec_online ?es ''bob''"
  proof
    assume "spec_online ?es ''bob''"
    then have "spec_online (map snd ?tes) ''bob''" unfolding es .
    from c [of "''bob''", THEN iffD2, OF this] nb show False by (rule notE [rotated])
  qed
  show ?thesis using ev a b by (intro conjI)
qed

text \<open>
  C1 as stated fails when one connection registers two usernames and then disconnects:
  the disconnect clears the socket id of the first record only, so the second username is
  still reported online although the connection that registered it has disconnected.
\<close>

theorem online_users_two_names_counterexample:
  "reported_online (run [(1, RegisterUser ''c1'' ''alice''), (2, RegisterUser ''c1'' ''bob''),
                         (3, Disconnect ''c1'')] init) = [''bob''] \<and>
   \<not> spec_online [RegisterUser ''c1'' ''alice'', RegisterUser ''c1'' ''bob'', Disconnect ''c1''] ''bob''"
  by (simp add: spec_online_def init_def registerUser_def disconnect_def
      User_upsert_def User_unset_socket_def User_find_online_def take_fault_def Let_def
      reported_online_def get_online_users_def online_names_def)

subsection \<open>Two usernames on one connection\<close>

lemma holder_stays:
  "faults st = [] \<Longrightarrow> distinct (map username (users st)) \<Longrightarrow> presence (users st) x = Some s \<Longrightarrow>
   list_all (\<lambda>te. \<not> releases s x (snd te)) later \<Longrightarrow>
   faults (run later st) = [] \<and> distinct (map username (users (run later st))) \<and>
   presence (users (run later st)) x = Some s"
proof (induction later arbitrary: st)
  case Nil
  then show ?case by simp
next
  case (Cons te later)
  obtain now e where te: "te = (now, e)" by (cases te)
  let ?st1 = "snd (handle now e st)"
  from Cons.prems(4) te have e: "\<not> releases s x e"
    and rest: "list_all (\<lambda>te. \<not> releases s x (snd te)) later" by simp_all
  note h = handle_healthy_users [OF Cons.prems(1), of now e]
  from h have f1: "faults ?st1 = []" by simp
  have "distinct (map username (users ?st1)) \<and> presence (users ?st1) x = Some s"
  proof (cases e)
    case (RegisterUser s' n)
    with h have us: "users ?st1 = upsert_socket n s' now (users st)" by simp
    from e RegisterUser have "n \<noteq> x" by simp
    then show ?thesis
      unfolding us using Cons.prems(2,3) by (simp add: upsert_socket_distinct presence_upsert)
  next
    case (SendMessage s' d)
    with h have us: "users ?st1 = users st" by simp
    show ?thesis unfolding us using Cons.prems(2,3) by simp
  next
    case (ClearChat s')
    with h have us: "users ?st1 = users st" by simp
    show ?thesis unfolding us using Cons.prems(2,3) by simp
  next
    case (Disconnect s')
    with h have us: "users ?st1 = unset_socket s' (users st)" by simp
    from e Disconnect have ne: "s' \<noteq> s" by simp
    have "map_option username (find (\<lambda>u. socketId u = Some s') (users st)) \<noteq> Some x"
    proof
      assume "map_option username (find (\<lambda>u. socketId u = Some s') (users st)) = Some x"
      then obtain hd where hd: "find (\<lambda>u. socketId u = Some s') (users st) = Some hd" "username hd = x"
        by auto
      from find_holder_member [OF hd(1)] presence_of_member [OF Cons.prems(2), of hd] hd(2)
      have "presence (users st) x = Some s'" by auto
      with Cons.prems(3) ne show False by simp
    qed
    then show ?thesis
      unfolding us using Cons.prems(2,3)
      by (simp add: unset_socket_names presence_unset [OF Cons.prems(2)])
  qed
  with Cons.IH [OF f1 _ _ rest] show ?case by (simp add: te)
qed

text \<open>
  C10, as amended. Take a state with unique usernames in which no record holds the socket id \<open>s\<close>,
  and let the connection \<open>s\<close> register two different usernames, the store resolving. Then
  both records hold \<open>s\<close> and both usernames are reported online. The disconnect of \<open>s\<close>
  clears the socket id of exactly one of the two; the other still holds \<open>s\<close> and is still
  reported online, and it stays reported online through every later sequence of events
  that contains neither a registration of that username nor another disconnect of \<open>s\<close>
  (which a connection that is gone cannot send). It is not reported online for ever: a
  later registration of that username hands its record to another connection.
\<close>

theorem two_names_one_connection:
  assumes healthy: "faults st = []"
    and uniq: "unique_usernames st"
    and fresh: "\<forall>u\<in>set (users st). socketId u \<noteq> Some s"
    and ab: "a \<noteq> b"
  shows "let st2 = snd (registerUser t2 s b (snd (registerUser t1 s a st)));
             st3 = snd (disconnect s st2)
         in presence (users st2) a = Some s \<and> presence (users st2) b = Some s \<and>
            a \<in> set (reported_online st2) \<and> b \<in> set (reported_online st2) \<and>
            (\<exists>gone stays.
               (gone = a \<and> stays = b \<or> gone = b \<and> stays = a) \<and>
               presence (users st3) gone = None \<and> gone \<notin> set (reported_online st3) \<and>
               presence (users st3) stays = Some s \<and> stays \<in> set (reported_online st3) \<and>
               (\<forall>later. list_all (\<lambda>te. \<not> releases s stays (snd te)) later \<longrightarrow>
                  stays \<in> set (reported_online (run later st3))))"
proof -
  let ?us = "users st"
  let ?us2 = "upsert_socket b s t2 (upsert_socket a s t1 ?us)"
  let ?st2 = "snd (registerUser t2 s b (snd (registerUser t1 s a st)))"
  let ?st3 = "snd (disconnect s ?st2)"
  let ?us3 = "unset_socket s ?us2"
  have st2: "?st2 = st\<lparr>users := ?us2\<rparr>"
    using healthy by (simp add: registerUser_healthy)
  have f2: "faults ?st2 = []" using healthy by (simp add: st2)
  have st3: "?st3 = st\<lparr>users := ?us3\<rparr>"
    using healthy by (simp add: st2 disconnect_healthy)
  have f3: "faults ?st3 = []" using healthy by (simp add: st3)
  have d0: "distinct (map username ?us)" using uniq by (simp add: unique_usernames_def)
  have d2: "distinct (map username ?us2)"
    using d0 by (simp add: upsert_socket_distinct)
  have d3: "distinct (map username ?us3)"
    using d2 by (simp add: unset_socket_names)
  have pa: "presence ?us2 a = Some s" using ab by (simp add: presence_upsert)
  have pb: "presence ?us2 b = Some s" by (simp add: presence_upsert)
  have other: "presence ?us2 m \<noteq> Some s" if "m \<noteq> a" "m \<noteq> b" for m
  proof
    assume "presence ?us2 m = Some s"
    with that have "presence ?us m = Some s" by (simp add: presence_upsert)
    from presence_Some_member [OF this] fresh show False by blast
  qed
  have on2: "m \<in> set (reported_online ?st2) \<longleftrightarrow> presence ?us2 m \<noteq> None" for m
    using online_iff_presence [OF d2, of m] reported_online_healthy [OF f2] by (simp add: st2)
  have on3: "m \<in> set (reported_online ?st3) \<longleftrightarrow> presence ?us3 m \<noteq> None" for m
    using online_iff_presence [OF d3, of m] reported_online_healthy [OF f3] by (simp add: st3)
  from presence_Some_member [OF pa] have "find (\<lambda>u. socketId u = Some s) ?us2 \<noteq> None"
    by (auto simp: find_None_iff)
  then obtain hd where hd: "find (\<lambda>u. socketId u = Some s) ?us2 = Some hd" by auto
  from find_holder_member [OF hd] presence_of_member [OF d2, of hd]
  have ph: "presence ?us2 (username hd) = Some s" by auto
  with other have which: "username hd = a \<or> username hd = b" by blast
  have p3: "presence ?us3 m = (if username hd = m then None else presence ?us2 m)" for m
    by (simp add: presence_unset [OF d2] hd)
  have perm: "\<forall>later. list_all (\<lambda>te. \<not> releases s x (snd te)) later \<longrightarrow>
      x \<in> set (reported_online (run later ?st3))" if x: "presence ?us3 x = Some s" for x
  proof (intro allI impI)
    fix later :: "(nat \<times> event) list"
    assume l: "list_all (\<lambda>te. \<not> releases s x (snd te)) later"
    have "presence (users ?st3) x = Some s" "distinct (map username (users ?st3))"
      using x d3 by (simp_all add: st3)
    from holder_stays [OF f3 this(2) this(1) l]
    have "faults (run later ?st3) = []" "distinct (map username (users (run later ?st3)))"
      "presence (users (run later ?st3)) x = Some s" by auto
    with online_iff_presence [OF this(2), of x] reported_online_healthy [OF this(1)]
    show "x \<in> set (reported_online (run later ?st3))" by simp
  qed
  have ex: "\<exists>gone stays.
      (gone = a \<and> stays = b \<or> gone = b \<and> stays = a) \<and>
      presence (users ?st3) gone = None \<and> gone \<notin> set (reported_online ?st3) \<and>
      presence (users ?st3) stays = Some s \<and> stays \<in> set (reported_online ?st3) \<and>
      (\<forall>later. list_all (\<lambda>te. \<not> releases s stays (snd te)) later \<longrightarrow>
         stays \<in> set (reported_online (run later ?st3)))"
  proof (cases "username hd = a")
    case True
    have g: "presence ?us3 a = None" using True by (simp add: p3)
    have k: "presence ?us3 b = Some s" using True ab pb by (simp add: p3)
    have "a \<notin> set (reported_online ?st3)" "b \<in> set (reported_online ?st3)"
      using g k by (simp_all add: on3)
    with g k perm [OF k] have "(a = a \<and> b = b \<or> a = b \<and> b = a) \<and>
      presence (users ?st3) a = None \<and> a \<notin> set (reported_online ?st3) \<and>
      presence (users ?st3) b = Some s \<and> b \<in> set (reported_online ?st3) \<and>
      (\<forall>later. list_all (\<lambda>te. \<not> releases s b (snd te)) later \<longrightarrow>
         b \<in> set (reported_online (run later ?st3)))" by (simp add: st3)
    then show ?thesis by blast
  next
    case False
    with which have hb: "username hd = b" by simp
    have g: "presence ?us3 b = None" using hb by (simp add: p3)
    have k: "presence ?us3 a = Some s" using hb ab pa by (simp add: p3)
    have "b \<notin> set (reported_online ?st3)" "a \<in> set (reported_online ?st3)"
      using g k by (simp_all add: on3)
    with g k perm [OF k] have "(b = a \<and> a = b \<or> b = b \<and> a = a) \<and>
      presence (users ?st3) b = None \<and> b \<notin> set (reported_online ?st3) \<and>
      presence (users ?st3) a = Some s \<and> a \<in> set (reported_online ?st3) \<and>
      (\<forall>later. list_all (\<lambda>te. \<not> releases s a (snd te)) later \<longrightarrow>
         a \<in> set (reported_online (run later ?st3)))" by (simp add: st3)
    then show ?thesis by blast
  qed
  have two: "presence (users ?st2) a = Some s \<and> presence (users ?st2) b = Some s \<and>
      a \<in> set (reported_online ?st2) \<and> b \<in> set (reported_online ?st2)"
    using pa pb by (simp add: on2) (simp add: st2)
  show ?thesis unfolding Let_def using two ex by blast
qed

theorem two_names_one_connection_witness:
  "reported_online (snd (registerUser 2 ''c1'' ''bob'' (snd (registerUser 1 ''c1'' ''alice'' init)))) =
     [''alice'', ''bob''] \<and>
   users (snd (disconnect ''c1'' (snd (registerUser 2 ''c1'' ''bob'' (snd (registerUser 1 ''c1'' ''alice'' init)))))) =
     [\<lparr>username = ''alice'', socketId = None, joinedAt = 1\<rparr>,
      \<lparr>username = ''bob'', socketId = Some ''c1'', joinedAt = 2\<rparr>] \<and>
   reported_online
     (snd (disconnect ''c1'' (snd (registerUser 2 ''c1'' ''bob'' (snd (registerUser 1 ''c1'' ''alice'' init)))))) =
     [''bob''] \<and>
   reported_online
     (run [(4, RegisterUser ''c2'' ''alice''), (5, Disconnect ''c2'')]
        (snd (disconnect ''c1'' (snd (registerUser 2 ''c1'' ''bob'' (snd (registerUser 1 ''c1'' ''alice'' init))))))) =
     [''bob'']"
  using two_names_one_connection [where st = init and s = "''c1''" and a = "''alice''" and b = "''bob''"
      and ?t1.0 = 1 and ?t2.0 = 2]
  by (simp add: init_def unique_usernames_def registerUser_def disconnect_def
      User_upsert_def User_unset_socket_def User_find_online_def take_fault_def Let_def
      reported_online_def get_online_users_def online_names_def)

text \<open>
  C10 as stated fails in its last word: the username left online by the disconnect is
  not permanently online. After \<open>c1\<close> has registered alice and bob and disconnected, bob
  is reported online; when bob then registers from \<open>c2\<close> and \<open>c2\<close> disconnects, nobody is.
\<close>

theorem two_names_not_permanent_counterexample:
  "reported_online
     (snd (disconnect ''c1'' (snd (registerUser 2 ''c1'' ''bob'' (snd (registerUser 1 ''c1'' ''alice'' init)))))) =
     [''bob''] \<and>
   reported_online
     (run [(4, RegisterUser ''c2'' ''bob''), (5, Disconnect ''c2'')]
        (snd (disconnect ''c1'' (snd (registerUser 2 ''c1'' ''bob'' (snd (registerUser 1 ''c1'' ''alice'' init))))))) =
     []"
  by (simp add: init_def registerUser_def disconnect_def
      User_upsert_def User_unset_socket_def User_find_online_def take_fault_def Let_def
      reported_online_def get_online_users_def online_names_def)

subsection \<open>The frame of the message collection\<close>

lemma sendMessage_appends:
  "messages (snd (sendMessage now s d st)) = messages st \<or>
   (\<exists>u. find (\<lambda>u. socketId u = Some s) (users st) = Some u \<and>
        messages (snd (sendMessage now s d st)) = messages st @ [fst (new_Message now u d st)])"
  by (auto simp: sendMessage_def User_findOne_socket_def Message_save_def new_Message_def take_fault_def
      split: list.splits option.splits)

lemma http_messages:
  "messages (snd (get_messages st)) = messages st \<and> messages (snd (get_online_users st)) = messages st"
  by (auto simp: get_messages_def Message_find_def get_online_users_def User_find_online_def take_fault_def
      split: list.splits option.splits)

text \<open>
  C8. No handler changes a message that is in the collection, whatever the store does:
  \<^verbatim>\<open>registerUser\<close>, \<^verbatim>\<open>disconnect\<close> and the two \<^verbatim>\<open>GET\<close> handlers leave the collection as it
  is; \<^verbatim>\<open>sendMessage\<close> leaves it as it is or, when a record holds the socket id, appends
  one message; \<^verbatim>\<open>clearChat\<close> empties it or, when the store rejects, leaves it as it is;
  and after any sequence of events without a \<^verbatim>\<open>clearChat\<close> the collection begins with
  the messages it held before, unchanged and in the same order.
\<close>

theorem messages_frame:
  "messages (snd (registerUser now s name st)) = messages st \<and>
   messages (snd (disconnect s st)) = messages st \<and>
   messages (snd (get_messages st)) = messages st \<and>
   messages (snd (get_online_users st)) = messages st \<and>
   (messages (snd (sendMessage now s d st)) = messages st \<or>
    (\<exists>u. find (\<lambda>u. socketId u = Some s) (users st) = Some u \<and>
         messages (snd (sendMessage now s d st)) = messages st @ [fst (new_Message now u d st)])) \<and>
   (messages (snd (clearChat s st)) = [] \<or> messages (snd (clearChat s st)) = messages st) \<and>
   (list_all (\<lambda>te. \<not> is_clearChat (snd te)) tes \<longrightarrow>
      (\<exists>new. messages (run tes st) = messages st @ new))"
  using registerUser_messages [of now s name st] disconnect_messages [of s st] http_messages [of st]
    sendMessage_appends [of now s d st] clearChat_messages [of s st] run_messages_prefix [of tes st]
  by blast

theorem messages_frame_witness:
  "messages
     (run [(6, RegisterUser ''c2'' ''bob''),
           (7, SendMessage ''c2'' \<lparr>data_content = Some ''yo'', data_fileUrl = None, data_fileType = None\<rparr>),
           (8, Disconnect ''c1'')]
        \<lparr>users = [\<lparr>username = ''alice'', socketId = Some ''c1'', joinedAt = 1\<rparr>],
         messages = [\<lparr>msg_id = 0, sender = ''alice'', content = ''hi'', fileUrl = None,
                      fileType = None, timestamp = 5\<rparr>],
         next_id = 1, faults = []\<rparr>) =
   [\<lparr>msg_id = 0, sender = ''alice'', content = ''hi'', fileUrl = None, fileType = None, timestamp = 5\<rparr>,
    \<lparr>msg_id = 1, sender = ''bob'', content = ''yo'', fileUrl = None, fileType = None, timestamp = 7\<rparr>]"
  using messages_frame [where st = "\<lparr>users = [\<lparr>username = ''alice'', socketId = Some ''c1'', joinedAt = 1\<rparr>],
         messages = [\<lparr>msg_id = 0, sender = ''alice'', content = ''hi'', fileUrl = None,
                      fileType = None, timestamp = 5\<rparr>],
         next_id = 1, faults = []\<rparr>"
      and tes = "[(6, RegisterUser ''c2'' ''bob''),
           (7, SendMessage ''c2'' \<lparr>data_content = Some ''yo'', data_fileUrl = None, data_fileType = None\<rparr>),
           (8, Disconnect ''c1'')]"]
  by (simp add: registerUser_def disconnect_def sendMessage_def User_findOne_socket_def Message_save_def
      new_Message_def User_upsert_def User_unset_socket_def User_find_online_def take_fault_def Let_def
      or_empty_def or_null_def)

subsection \<open>Registering again\<close>

lemma upsert_socket_record:
  "distinct (map username us) \<Longrightarrow>
   \<exists>r. filter (\<lambda>u. username u = name) (upsert_socket name s now us) = [r] \<and>
       username r = name \<and> socketId r = Some s"
proof (induction us)
  case Nil
  then show ?case by simp
next
  case (Cons u us)
  show ?case
  proof (cases "username u = name")
    case True
    with Cons.prems have "name \<notin> set (map username us)" by simp
    then have "filter (\<lambda>u. username u = name) us = []"
      by (auto simp: filter_empty_conv)
    with True show ?thesis by simp
  next
    case False
    with Cons show ?thesis by simp
  qed
qed

lemma upsert_socket_others:
  "distinct (map username us) \<Longrightarrow> u \<in> set (upsert_socket name s now us) \<Longrightarrow>
   (username u = name \<and> socketId u = Some s) \<or> (u \<in> set us \<and> username u \<noteq> name)"
proof (induction us)
  case Nil
  then show ?case by simp
next
  case (Cons v us)
  show ?case
  proof (cases "username v = name")
    case True
    from Cons.prems(1) True have "name \<notin> username ` set us" by simp
    then have fresh: "\<forall>w\<in>set us. username w \<noteq> name" by blast
    from Cons.prems(2) True have "u = v\<lparr>socketId := Some s\<rparr> \<or> u \<in> set us" by simp
    then show ?thesis using True fresh by auto
  next
    case False
    from Cons.prems(2) False have "u = v \<or> u \<in> set (upsert_socket name s now us)" by simp
    then show ?thesis
    proof
      assume "u = v"
      then show ?thesis using False by simp
    next
      assume "u \<in> set (upsert_socket name s now us)"
      with Cons.IH Cons.prems(1) show ?thesis by auto
    qed
  qed
qed

text \<open>
  C7. From a state with unique usernames, the store resolving, let a username register
  from the connection \<open>c1\<close> and then from another connection \<open>c2\<close>. Then there is exactly
  one record with that username and its socketId is \<open>c2\<close>; and when no record of another
  username holds \<open>c1\<close>, a \<^verbatim>\<open>sendMessage\<close> from \<open>c1\<close> gets the "Unauthorized user" error
  and saves nothing.
\<close>

theorem reregister_last_wins:
  assumes healthy: "faults st = []"
    and uniq: "unique_usernames st"
    and new: "c1 \<noteq> c2"
  shows "let st2 = snd (registerUser t2 c2 name (snd (registerUser t1 c1 name st)))
         in (\<exists>r. filter (\<lambda>u. username u = name) (users st2) = [r] \<and> socketId r = Some c2) \<and>
            presence (users st2) name = Some c2 \<and>
            unique_usernames st2 \<and>
            ((\<forall>u\<in>set (users st). username u \<noteq> name \<longrightarrow> socketId u \<noteq> Some c1) \<longrightarrow>
               fst (sendMessage now c1 d st2) =
                 [SocketEmit c1 ''error'' (ErrorObject ''Unauthorized user'')] \<and>
               messages (snd (sendMessage now c1 d st2)) = messages st)"
proof -
  let ?us1 = "upsert_socket name c1 t1 (users st)"
  let ?us2 = "upsert_socket name c2 t2 ?us1"
  let ?st2 = "snd (registerUser t2 c2 name (snd (registerUser t1 c1 name st)))"
  have st2: "?st2 = st\<lparr>users := ?us2\<rparr>"
    using healthy by (simp add: registerUser_healthy)
  have d0: "distinct (map username (users st))"
    using uniq by (simp add: unique_usernames_def)
  have d1: "distinct (map username ?us1)"
    using d0 by (rule upsert_socket_distinct)
  have d2: "unique_usernames ?st2"
    unfolding st2 using d1 by (simp add: unique_usernames_def upsert_socket_distinct)
  have one: "\<exists>r. filter (\<lambda>u. username u = name) (users ?st2) = [r] \<and> socketId r = Some c2"
    using upsert_socket_record [OF d1, of name c2 t2] st2 by auto
  have pres: "presence (users ?st2) name = Some c2"
    unfolding st2 by (simp add: presence_upsert)
  have unauth: "fst (sendMessage now c1 d ?st2) = [SocketEmit c1 ''error'' (ErrorObject ''Unauthorized user'')] \<and>
      messages (snd (sendMessage now c1 d ?st2)) = messages st"
    if others: "\<forall>u\<in>set (users st). username u \<noteq> name \<longrightarrow> socketId u \<noteq> Some c1"
  proof -
    have "socketId u \<noteq> Some c1" if u: "u \<in> set ?us2" for u
    proof -
      from upsert_socket_others [OF d1 u]
      consider "username u = name" "socketId u = Some c2" | "u \<in> set ?us1" "username u \<noteq> name"
        by blast
      then show ?thesis
      proof cases
        case 1
        then show ?thesis using new by simp
      next
        case 2
        from upsert_socket_others [OF d0 2(1)] 2(2) have "u \<in> set (users st)" by blast
        with others 2(2) show ?thesis by blast
      qed
    qed
    then have none: "find (\<lambda>u. socketId u = Some c1) ?us2 = None"
      by (simp add: find_None_iff)
    show ?thesis
      using none healthy
      by (simp add: st2 sendMessage_def User_findOne_socket_def take_fault_def)
  qed
  show ?thesis unfolding Let_def using one pres d2 unauth by blast
qed

theorem reregister_last_wins_witness:
  "users (snd (registerUser 2 ''c2'' ''alice'' (snd (registerUser 1 ''c1'' ''alice'' init)))) =
     [\<lparr>username = ''alice'', socketId = Some ''c2'', joinedAt = 1\<rparr>] \<and>
   fst (sendMessage 3 ''c1'' \<lparr>data_content = Some ''hi'', data_fileUrl = None, data_fileType = None\<rparr>
          (snd (registerUser 2 ''c2'' ''alice'' (snd (registerUser 1 ''c1'' ''alice'' init))))) =
     [SocketEmit ''c1'' ''error'' (ErrorObject ''Unauthorized user'')]"
  using reregister_last_wins [where st = init and ?c1.0 = "''c1''" and ?c2.0 = "''c2''" and name = "''alice''"
      and ?t1.0 = 1 and ?t2.0 = 2 and now = 3
      and d = "\<lparr>data_content = Some ''hi'', data_fileUrl = None, data_fileType = None\<rparr>"]
  by (simp add: init_def unique_usernames_def registerUser_def sendMessage_def User_findOne_socket_def
      User_upsert_def User_find_online_def take_fault_def Let_def)

subsection \<open>Uploads\<close>









end
